theory Spec2Isabelle
  imports Complex_Main "HOL-Library.Sublist"
begin

section \<open>JavaScript numbers and conversions used by \<open>src/App.js\<close>\<close>

text \<open>
  A JavaScript number is a finite value, \<open>NaN\<close> or one of the two infinities. Finite
  values are carried as exact reals: every operation below is the IEEE operation without
  its final rounding, so the model and the program agree whenever the intermediate values
  are representable (in particular on integers of magnitude at most \<open>2 ^ 53\<close>). Beyond
  that they can differ: a product above \<open>2 ^ 53\<close> is not rounded and never overflows to
  \<open>Infinity\<close>. The statements below that compute with an id therefore bound it by
  \<open>i * 97 \<le> 2 ^ 53\<close> or are about concrete small ids. The sign of zero is not kept;
  none of the modelled code can observe it.
\<close>

datatype number = Finite real | NaN | PosInfinity | NegInfinity

text \<open>The value read from a property: \<open>undefined\<close> when the property is absent.\<close>

datatype js_value = Undefined | Null | NumV number | StrV string

definition truthy :: "number \<Rightarrow> bool" where
  "truthy n = (case n of Finite q \<Rightarrow> q \<noteq> 0 | NaN \<Rightarrow> False | _ \<Rightarrow> True)"

text \<open>\<open>a || b\<close> on numbers.\<close>

definition js_or :: "number \<Rightarrow> number \<Rightarrow> number" where
  "js_or a b = (if truthy a then a else b)"

definition js_neg :: "number \<Rightarrow> number" where
  "js_neg a = (case a of Finite q \<Rightarrow> Finite (- q) | NaN \<Rightarrow> NaN
                 | PosInfinity \<Rightarrow> NegInfinity | NegInfinity \<Rightarrow> PosInfinity)"

fun js_add :: "number \<Rightarrow> number \<Rightarrow> number" where
  "js_add (Finite a) (Finite b) = Finite (a + b)"
| "js_add NaN _ = NaN"
| "js_add _ NaN = NaN"
| "js_add PosInfinity NegInfinity = NaN"
| "js_add NegInfinity PosInfinity = NaN"
| "js_add PosInfinity _ = PosInfinity"
| "js_add NegInfinity _ = NegInfinity"
| "js_add _ PosInfinity = PosInfinity"
| "js_add _ NegInfinity = NegInfinity"

definition js_sub :: "number \<Rightarrow> number \<Rightarrow> number" where
  "js_sub a b = js_add a (js_neg b)"

definition sign_of :: "number \<Rightarrow> int" where
  "sign_of a = (case a of Finite q \<Rightarrow> (if 0 < q then 1 else if q < 0 then - 1 else 0)
                  | NaN \<Rightarrow> 0 | PosInfinity \<Rightarrow> 1 | NegInfinity \<Rightarrow> - 1)"

fun js_mul :: "number \<Rightarrow> number \<Rightarrow> number" where
  "js_mul (Finite a) (Finite b) = Finite (a * b)"
| "js_mul NaN _ = NaN"
| "js_mul _ NaN = NaN"
| "js_mul a b =
     (if sign_of a * sign_of b = 0 then NaN
      else if sign_of a * sign_of b > 0 then PosInfinity else NegInfinity)"

text \<open>
  \<open>a % b\<close>: the remainder of the division truncated towards zero, so the result has the
  sign of the dividend.
\<close>

definition trunc :: "real \<Rightarrow> int" where
  "trunc x = (if 0 \<le> x then \<lfloor>x\<rfloor> else - \<lfloor>- x\<rfloor>)"

fun js_rem :: "number \<Rightarrow> number \<Rightarrow> number" where
  "js_rem (Finite a) (Finite b) =
     (if b = 0 then NaN else Finite (a - b * of_int (trunc (a / b))))"
| "js_rem (Finite a) PosInfinity = Finite a"
| "js_rem (Finite a) NegInfinity = Finite a"
| "js_rem _ _ = NaN"

definition Math_floor :: "number \<Rightarrow> number" where
  "Math_floor a = (case a of Finite q \<Rightarrow> Finite (of_int \<lfloor>q\<rfloor>) | _ \<Rightarrow> a)"

text \<open>\<open>a <= b\<close> and \<open>a >= b\<close>: false as soon as one side is \<open>NaN\<close>.\<close>

fun js_le :: "number \<Rightarrow> number \<Rightarrow> bool" where
  "js_le (Finite a) (Finite b) = (a \<le> b)"
| "js_le NaN _ = False"
| "js_le _ NaN = False"
| "js_le NegInfinity _ = True"
| "js_le _ PosInfinity = True"
| "js_le _ _ = False"

definition js_ge :: "number \<Rightarrow> number \<Rightarrow> bool" where
  "js_ge a b = js_le b a"

subsection \<open>\<open>Number(text)\<close>\<close>

text \<open>
  The conversion of a string follows the grammar of ECMAScript's \<open>StringToNumber\<close> on
  ASCII text: surrounding white space is dropped, the empty string is \<open>0\<close>, then either
  a binary, octal or hexadecimal integer, or an optionally signed decimal literal with
  optional fraction and exponent, or \<open>Infinity\<close>. Anything else is \<open>NaN\<close>. The value
  of a literal is exact: it is not rounded to a double, so a text such as \<open>1e-400\<close> is a
  small non-zero number here and \<open>0\<close> in the program; and only the ASCII white space
  characters are dropped. The general statements below take \<open>Number\<close> of a text as it
  is and never compute it; it is computed only on the short decimal texts of the examples.
\<close>

definition is_ws :: "char \<Rightarrow> bool" where
  "is_ws c = (c \<in> set [CHR 0x09, CHR 0x0A, CHR 0x0B, CHR 0x0C, CHR 0x0D, CHR '' ''])"

definition trim :: "string \<Rightarrow> string" where
  "trim s = rev (dropWhile is_ws (rev (dropWhile is_ws s)))"

definition digit_of :: "char \<Rightarrow> nat option" where
  "digit_of c =
     map_of (zip ''0123456789abcdef'' [0, 1, 2, 3, 4, 5, 6, 7, 8, 9, 10, 11, 12, 13, 14, 15]
             @ zip ''ABCDEF'' [10, 11, 12, 13, 14, 15]) c"

definition is_digit :: "nat \<Rightarrow> char \<Rightarrow> bool" where
  "is_digit b c = (case digit_of c of Some d \<Rightarrow> d < b | None \<Rightarrow> False)"

definition digits_value :: "nat \<Rightarrow> string \<Rightarrow> nat" where
  "digits_value b s =
     foldl (\<lambda>acc c. acc * b + (case digit_of c of Some d \<Rightarrow> d | None \<Rightarrow> 0)) 0 s"

definition radix_literal :: "nat \<Rightarrow> string \<Rightarrow> number" where
  "radix_literal b s =
     (if s \<noteq> [] \<and> list_all (is_digit b) s then Finite (of_nat (digits_value b s)) else NaN)"

definition exponent_part :: "string \<Rightarrow> int option" where
  "exponent_part r =
     (case r of
        [] \<Rightarrow> Some 0
      | e # t \<Rightarrow>
          if e = CHR ''e'' \<or> e = CHR ''E'' then
            (let neg = (t \<noteq> [] \<and> hd t = CHR ''-'');
                 ds = (if t \<noteq> [] \<and> (hd t = CHR ''-'' \<or> hd t = CHR ''+'') then tl t else t)
             in if ds \<noteq> [] \<and> list_all (is_digit 10) ds
                then Some (if neg then - int (digits_value 10 ds) else int (digits_value 10 ds))
                else None)
          else None)"

definition scale10 :: "real \<Rightarrow> int \<Rightarrow> real" where
  "scale10 m e = (if 0 \<le> e then m * 10 ^ nat e else m / 10 ^ nat (- e))"

definition unsigned_decimal :: "string \<Rightarrow> number" where
  "unsigned_decimal t =
     (if t = ''Infinity'' then PosInfinity
      else
        let ip = takeWhile (is_digit 10) t;
            r1 = dropWhile (is_digit 10) t;
            has_dot = (r1 \<noteq> [] \<and> hd r1 = CHR ''.'');
            fp = (if has_dot then takeWhile (is_digit 10) (tl r1) else []);
            r2 = (if has_dot then dropWhile (is_digit 10) (tl r1) else r1)
        in if ip = [] \<and> fp = [] then NaN
           else
             (case exponent_part r2 of
                None \<Rightarrow> NaN
              | Some e \<Rightarrow>
                  Finite (scale10 (of_nat (digits_value 10 ip)
                                   + of_nat (digits_value 10 fp) / 10 ^ length fp) e)))"

definition StringToNumber :: "string \<Rightarrow> number" where
  "StringToNumber s0 =
     (let s = trim s0 in
      case s of
        [] \<Rightarrow> Finite 0
      | c # t \<Rightarrow>
          if c = CHR ''0'' \<and> t \<noteq> [] \<and> (hd t = CHR ''x'' \<or> hd t = CHR ''X'')
            then radix_literal 16 (tl t)
          else if c = CHR ''0'' \<and> t \<noteq> [] \<and> (hd t = CHR ''o'' \<or> hd t = CHR ''O'')
            then radix_literal 8 (tl t)
          else if c = CHR ''0'' \<and> t \<noteq> [] \<and> (hd t = CHR ''b'' \<or> hd t = CHR ''B'')
            then radix_literal 2 (tl t)
          else if c = CHR ''+'' then unsigned_decimal t
          else if c = CHR ''-'' then js_neg (unsigned_decimal t)
          else unsigned_decimal s)"

text \<open>\<open>Number(v)\<close> for the values a property read can give.\<close>

definition Number :: "js_value \<Rightarrow> number" where
  "Number v = (case v of Undefined \<Rightarrow> NaN | Null \<Rightarrow> Finite 0
                 | NumV n \<Rightarrow> n | StrV s \<Rightarrow> StringToNumber s)"

section \<open>Catalog items and the augmentation function\<close>

text \<open>
  A raw item as fetched; \<open>id_val\<close> is the property \<open>id\<close> (renamed: \<open>id\<close> is the
  identity function of HOL). An enriched item is the raw item spread into a new object
  with \<open>category\<close> and \<open>price\<close>; \<open>category\<close> is \<open>None\<close> when the array read yields
  \<open>undefined\<close>. The other fields are text, as the data model of the specification has
  them (the pipeline calls \<open>toLowerCase\<close> on the title).
\<close>

record photo =
  id_val :: js_value
  title :: string
  url :: string
  thumbnailUrl :: string

record product = photo +
  category :: "string option"
  price :: number

definition categories :: "string list" where
  "categories = [''Mobile'', ''Laptop'', ''Accessories'', ''Home'', ''Grocery'']"

text \<open>
  \<open>xs[k]\<close> for a number \<open>k\<close>: an element when \<open>k\<close> is an integer index in range,
  \<open>undefined\<close> otherwise.
\<close>

definition array_get :: "'a list \<Rightarrow> number \<Rightarrow> 'a option" where
  "array_get xs k =
     (case k of
        Finite q \<Rightarrow>
          if 0 \<le> q \<and> of_int \<lfloor>q\<rfloor> = q \<and> nat \<lfloor>q\<rfloor> < length xs
          then Some (xs ! nat \<lfloor>q\<rfloor>) else None
      | _ \<Rightarrow> None)"

definition with_category_price :: "photo \<Rightarrow> string option \<Rightarrow> number \<Rightarrow> product" where
  "with_category_price p c pr =
     \<lparr>id_val = id_val p, title = title p, url = url p, thumbnailUrl = thumbnailUrl p,
      category = c, price = pr\<rparr>"

text \<open>
  \<open>ProductList.augment\<close> (lines 210-216). The first argument is the value that
  \<open>Math.random()\<close> returns if it is called.
\<close>

definition augment :: "real \<Rightarrow> photo \<Rightarrow> product" where
  "augment rnd p =
     (let idn = js_or (Number (id_val p)) (Math_floor (js_mul (Finite rnd) (Finite 1000)));
          cat = array_get categories (js_rem idn (Finite (of_nat (length categories))));
          pr = Math_floor (js_add (js_rem (js_mul idn (Finite 97)) (Finite 149500)) (Finite 500))
      in with_category_price p cat pr)"

text \<open>The inline copy in \<open>ProductDetails\<close> (lines 321-327).\<close>

definition details_augment :: "real \<Rightarrow> photo \<Rightarrow> product" where
  "details_augment rnd p =
     (let idn = js_or (Number (id_val p)) (Math_floor (js_mul (Finite rnd) (Finite 10000)));
          cat = array_get categories (js_rem idn (Finite (of_nat (length categories))));
          pr = Math_floor (js_add (js_rem (js_mul idn (Finite 97)) (Finite 149500)) (Finite 500))
      in with_category_price p cat pr)"

text \<open>
  The derivation in the words of the specification, for an integer id \<open>k\<close>: the label
  at index \<open>k mod 5\<close> and the price \<open>((k * 97) mod 149500) + 500\<close>, with the
  mathematical \<open>mod\<close>. The two functions above are compared with it below.
\<close>

definition enriched_by_formula :: "int \<Rightarrow> photo \<Rightarrow> product" where
  "enriched_by_formula k p =
     with_category_price p (Some (categories ! nat (k mod 5)))
       (Finite (of_int ((k * 97) mod 149500 + 500)))"

section \<open>The filter and sort pipeline\<close>

text \<open>
  \<open>toLowerCase\<close> on the 26 ASCII letters and \<open>String.prototype.includes\<close>. Other
  bytes are left as they are, where the program lowers every cased letter of Unicode; the
  statements below never depend on which characters \<open>toLowerCase\<close> changes, and the
  examples use ASCII titles.
\<close>

definition to_lower_char :: "char \<Rightarrow> char" where
  "to_lower_char c =
     (case map_of (zip ''ABCDEFGHIJKLMNOPQRSTUVWXYZ'' ''abcdefghijklmnopqrstuvwxyz'') c of
        Some l \<Rightarrow> l | None \<Rightarrow> c)"

definition toLowerCase :: "string \<Rightarrow> string" where
  "toLowerCase s = map to_lower_char s"

fun includes_str :: "string \<Rightarrow> string \<Rightarrow> bool" where
  "includes_str [] t = (t = [])"
| "includes_str (c # cs) t = (take (length t) (c # cs) = t \<or> includes_str cs t)"

text \<open>
  The filter state of \<open>ProductList\<close>; every field is the text of a form control.
  \<open>categoryF\<close> and \<open>sortF\<close> are the fields \<open>category\<close> and \<open>sort\<close>.
\<close>

record filter_spec =
  search :: string
  categoryF :: string
  minPrice :: string
  maxPrice :: string
  sortF :: string

text \<open>
  \<open>Array.prototype.sort\<close> with a comparison function. ECMAScript requires the sort to
  be stable and reads a \<open>NaN\<close> result of the comparison as \<open>0\<close>; it is embedded as the
  stable insertion sort, which places \<open>x\<close> after \<open>y\<close> exactly when the comparison of
  \<open>x\<close> with \<open>y\<close> is positive.
\<close>

definition positive :: "number \<Rightarrow> bool" where
  "positive n = (case n of Finite q \<Rightarrow> 0 < q | PosInfinity \<Rightarrow> True | _ \<Rightarrow> False)"

fun insert_by :: "('a \<Rightarrow> 'a \<Rightarrow> number) \<Rightarrow> 'a \<Rightarrow> 'a list \<Rightarrow> 'a list" where
  "insert_by cmp x [] = [x]"
| "insert_by cmp x (y # ys) =
     (if positive (cmp x y) then y # insert_by cmp x ys else x # y # ys)"

definition array_sort :: "('a \<Rightarrow> 'a \<Rightarrow> number) \<Rightarrow> 'a list \<Rightarrow> 'a list" where
  "array_sort cmp xs = foldr (insert_by cmp) xs []"

definition by_price_asc :: "product \<Rightarrow> product \<Rightarrow> number" where
  "by_price_asc a b = js_sub (price a) (price b)"

definition by_price_desc :: "product \<Rightarrow> product \<Rightarrow> number" where
  "by_price_desc a b = js_sub (price b) (price a)"

definition matches_search :: "filter_spec \<Rightarrow> product \<Rightarrow> bool" where
  "matches_search f p = includes_str (toLowerCase (title p)) (toLowerCase (search f))"

definition matches_category :: "filter_spec \<Rightarrow> product \<Rightarrow> bool" where
  "matches_category f p = (category p = Some (categoryF f))"

definition minP :: "filter_spec \<Rightarrow> number" where
  "minP f = js_or (Number (StrV (minPrice f))) NegInfinity"

definition maxP :: "filter_spec \<Rightarrow> number" where
  "maxP f = js_or (Number (StrV (maxPrice f))) PosInfinity"

definition in_price_range :: "filter_spec \<Rightarrow> product \<Rightarrow> bool" where
  "in_price_range f p = (js_ge (price p) (minP f) \<and> js_le (price p) (maxP f))"

text \<open>\<open>ProductList.filtered\<close> (lines 256-270), as a function of the values.\<close>

definition filtered :: "product list \<Rightarrow> filter_spec \<Rightarrow> product list" where
  "filtered items f =
     (let out0 = items;
          out1 = (if search f \<noteq> [] then filter (matches_search f) out0 else out0);
          out2 = (if categoryF f \<noteq> [] then filter (matches_category f) out1 else out1);
          out3 = filter (in_price_range f) out2;
          out4 = (if sortF f = ''asc'' then array_sort by_price_asc out3 else out3);
          out5 = (if sortF f = ''desc'' then array_sort by_price_desc out4 else out4)
      in out5)"

subsection \<open>The same pipeline on a store of arrays\<close>

text \<open>
  Arrays are objects: \<open>slice\<close> and \<open>filter\<close> allocate a new array, \<open>sort\<close>
  rewrites the array it is called on. A store is the list of all arrays allocated so far
  and a reference is an index into it.
\<close>

type_synonym store = "product list list"

definition alloc :: "store \<Rightarrow> product list \<Rightarrow> nat \<times> store" where
  "alloc st xs = (length st, st @ [xs])"

definition slice_ref :: "store \<Rightarrow> nat \<Rightarrow> nat \<times> store" where
  "slice_ref st a = alloc st (st ! a)"

definition filter_ref :: "(product \<Rightarrow> bool) \<Rightarrow> store \<Rightarrow> nat \<Rightarrow> nat \<times> store" where
  "filter_ref P st a = alloc st (filter P (st ! a))"

definition sort_ref :: "(product \<Rightarrow> product \<Rightarrow> number) \<Rightarrow> store \<Rightarrow> nat \<Rightarrow> store" where
  "sort_ref cmp st a = st[a := array_sort cmp (st ! a)]"

definition filtered_store :: "store \<Rightarrow> nat \<Rightarrow> filter_spec \<Rightarrow> nat \<times> store" where
  "filtered_store st items f =
     (let (out0, s0) = slice_ref st items;
          (out1, s1) = (if search f \<noteq> [] then filter_ref (matches_search f) s0 out0
                        else (out0, s0));
          (out2, s2) = (if categoryF f \<noteq> [] then filter_ref (matches_category f) s1 out1
                        else (out1, s1));
          (out3, s3) = filter_ref (in_price_range f) s2 out2;
          s4 = (if sortF f = ''asc'' then sort_ref by_price_asc s3 out3 else s3);
          s5 = (if sortF f = ''desc'' then sort_ref by_price_desc s4 out3 else s4)
      in (out3, s5))"

section \<open>Loading the catalog and the route guard\<close>

text \<open>
  The parsed response body. An array in the payload is an array of raw items; the keys
  read by the program are \<open>data\<close> and \<open>photos\<close>, which only an object can have.
\<close>

datatype json =
  J_null | J_bool bool | J_num number | J_str string
| J_photos "photo list" | J_obj "(string \<times> json) list"

text \<open>\<open>v?.k\<close>, with \<open>None\<close> for \<open>undefined\<close>; a repeated key keeps its last value.\<close>

fun get_prop :: "json option \<Rightarrow> string \<Rightarrow> json option" where
  "get_prop (Some (J_obj kvs)) k = map_of (rev kvs) k"
| "get_prop _ k = None"

fun truthy_json :: "json option \<Rightarrow> bool" where
  "truthy_json None = False"
| "truthy_json (Some J_null) = False"
| "truthy_json (Some (J_bool b)) = b"
| "truthy_json (Some (J_num n)) = truthy n"
| "truthy_json (Some (J_str s)) = (s \<noteq> [])"
| "truthy_json (Some (J_photos ps)) = True"
| "truthy_json (Some (J_obj kvs)) = True"

definition or_json :: "json option \<Rightarrow> json option \<Rightarrow> json option" where
  "or_json a b = (if truthy_json a then a else b)"

text \<open>\<open>data?.data?.photos?.data || data?.photos?.data || []\<close> (line 233).\<close>

definition unwrap :: "json \<Rightarrow> json option" where
  "unwrap data =
     or_json (or_json (get_prop (get_prop (get_prop (Some data) ''data'') ''photos'') ''data'')
                      (get_prop (get_prop (Some data) ''photos'') ''data''))
             (Some (J_photos []))"

text \<open>
  \<open>arr.map(augment)\<close>: \<open>Math.random()\<close> is called once for each item that takes the
  fallback; \<open>rnd\<close> is the sequence of its results and \<open>k\<close> the number of calls so far.
\<close>

fun map_augment :: "(nat \<Rightarrow> real) \<Rightarrow> nat \<Rightarrow> photo list \<Rightarrow> product list" where
  "map_augment rnd k [] = []"
| "map_augment rnd k (p # ps) =
     augment (rnd k) p
       # map_augment rnd (if truthy (Number (id_val p)) then k else Suc k) ps"

text \<open>
  What the page holds: the token in local storage (\<open>None\<close> when there is none), the
  current route, the component state \<open>items\<close> and \<open>loading\<close>, and the alerts shown.
\<close>

record app_state =
  token :: "string option"
  location :: string
  items :: "product list"
  loading :: bool
  alerts :: "string list"

text \<open>
  What the network gives to one \<open>load\<close>: \<open>fetch\<close> rejects, or it resolves to a
  response with its \<open>ok\<close> flag and a body that \<open>res.json()\<close> parses (\<open>None\<close> when it
  rejects).
\<close>

datatype fetch_result = Rejected | Resolved bool "json option"

definition no_token :: "string option \<Rightarrow> bool" where
  "no_token t = (case t of None \<Rightarrow> True | Some s \<Rightarrow> s = [])"

text \<open>The \<open>catch\<close> block of \<open>load\<close> (lines 237-241).\<close>

definition on_catch :: "app_state \<Rightarrow> app_state" where
  "on_catch s =
     s\<lparr>alerts := alerts s @ [''Failed to fetch products (token might be invalid). Please login again.''],
       token := None, location := ''/login''\<rparr>"

text \<open>\<open>ProductList.load\<close> (lines 219-245).\<close>

definition load :: "(nat \<Rightarrow> real) \<Rightarrow> fetch_result \<Rightarrow> app_state \<Rightarrow> app_state" where
  "load rnd net s =
     (let s1 = s\<lparr>loading := True\<rparr>;
          s2 =
            (if no_token (token s1) then s1\<lparr>location := ''/login''\<rparr>
             else
               (case net of
                  Rejected \<Rightarrow> on_catch s1
                | Resolved ok body \<Rightarrow>
                    (case body of
                       None \<Rightarrow> on_catch s1
                     | Some data \<Rightarrow>
                         (case unwrap data of
                            Some (J_photos arr) \<Rightarrow> s1\<lparr>items := map_augment rnd 0 arr\<rparr>
                          | _ \<Rightarrow> on_catch s1))))
      in s2\<lparr>loading := False\<rparr>)"

text \<open>\<open>PrivateRoute\<close> (lines 64-68): the guard of the protected routes.\<close>

datatype view = Redirect string | Children

definition PrivateRoute :: "app_state \<Rightarrow> view" where
  "PrivateRoute s = (if no_token (token s) then Redirect ''/login'' else Children)"

section \<open>Derived notions and example data\<close>

text \<open>An item passes the filters when every criterion that is set holds for it.\<close>

definition passes :: "filter_spec \<Rightarrow> product \<Rightarrow> bool" where
  "passes f p =
     ((search f = [] \<or> matches_search f p) \<and> (categoryF f = [] \<or> matches_category f p)
      \<and> in_price_range f p)"

text \<open>The initial filter state of \<open>ProductList\<close> (line 204).\<close>

definition initial_filters :: filter_spec where
  "initial_filters = \<lparr>search = [], categoryF = [], minPrice = [], maxPrice = [], sortF = []\<rparr>"

text \<open>Example data: a raw item with a given id and title, and its enriched form.\<close>

definition photo_of :: "js_value \<Rightarrow> string \<Rightarrow> photo" where
  "photo_of i t = \<lparr>id_val = i, title = t, url = [], thumbnailUrl = []\<rparr>"

definition item :: "int \<Rightarrow> string \<Rightarrow> product" where
  "item k t = augment 0 (photo_of (NumV (Finite (of_int k))) t)"

text \<open>
  The invariant of the run: the arrays of the initial store are untouched, and the
  current \<open>out\<close> is a newer array holding the value computed so far.
\<close>

definition extends :: "store \<Rightarrow> store \<Rightarrow> nat \<Rightarrow> product list \<Rightarrow> bool" where
  "extends st s out v =
     (length st \<le> out \<and> out < length s \<and> s ! out = v \<and> take (length st) s = st)"

section \<open>Properties of the augmentation\<close>

lemma Number_text:
  "Number (StrV []) = Finite 0"
  "Number (StrV ''0'') = Finite 0"
  "Number (StrV ''0.0'') = Finite 0"
  "Number (StrV ''1'') = Finite 1"
  "Number (StrV ''7'') = Finite 7"
  "Number (StrV ''10'') = Finite 10"
  "Number (StrV ''600'') = Finite 600"
  "Number (StrV ''700'') = Finite 700"
  by (simp_all add: Number_def StringToNumber_def trim_def is_ws_def unsigned_decimal_def
      is_digit_def digit_of_def exponent_part_def digits_value_def scale10_def)

lemma Number_Undefined: "Number Undefined = NaN"
  by (simp add: Number_def)

lemma trunc_of_int_div:
  "0 \<le> i \<Longrightarrow> 0 < m \<Longrightarrow> trunc (of_int i / of_int m) = i div m"
  by (simp add: trunc_def floor_divide_of_int_eq)

lemma js_rem_of_int:
  assumes "0 \<le> i" and "0 < m"
  shows "js_rem (Finite (of_int i)) (Finite (of_int m)) = Finite (of_int (i mod m))"
proof -
  have "real_of_int i - of_int m * of_int (i div m) = of_int (i mod m)"
    by (simp add: minus_mult_div_eq_mod [symmetric] del: minus_mult_div_eq_mod)
  with assms show ?thesis
    by (simp add: trunc_of_int_div)
qed

lemma array_get_of_int:
  "0 \<le> k \<Longrightarrow> nat k < length xs \<Longrightarrow> array_get xs (Finite (of_int k)) = Some (xs ! nat k)"
  by (simp add: array_get_def)

text \<open>The shared body of both augmentations, once the id is a non-negative integer.\<close>

lemma derivation_of_int:
  assumes "0 \<le> k"
  shows "with_category_price p
           (array_get categories
              (js_rem (Finite (of_int k)) (Finite (of_nat (length categories)))))
           (Math_floor
              (js_add (js_rem (js_mul (Finite (of_int k)) (Finite 97)) (Finite 149500))
                 (Finite 500)))
         = enriched_by_formula k p"
proof -
  have len: "real (length categories) = 5"
    by (simp add: categories_def)
  have c: "js_rem (Finite (of_int k)) (Finite 5) = Finite (of_int (k mod 5))"
    using js_rem_of_int [OF assms, of 5] by simp
  have "0 \<le> k * 97" using assms by simp
  then have r: "js_rem (Finite (of_int (k * 97))) (Finite 149500)
                  = Finite (of_int ((k * 97) mod 149500))"
    using js_rem_of_int [of "k * 97" 149500] by simp
  have g: "array_get categories (Finite (of_int (k mod 5))) = Some (categories ! nat (k mod 5))"
    by (rule array_get_of_int) (simp_all add: categories_def)
  have m: "js_mul (Finite (of_int k)) (Finite 97) = Finite (of_int (k * 97))"
    by simp
  show ?thesis
    unfolding len m r c g
    by (simp add: enriched_by_formula_def Math_floor_def)
qed

lemma augment_by_formula:
  assumes "Number (id_val p) = Finite (of_int i)" and "0 < i"
  shows "augment r p = enriched_by_formula i p"
    and "details_augment r p = enriched_by_formula i p"
proof -
  have t: "js_or (Number (id_val p)) x = Finite (of_int i)" for x
    using assms by (simp add: js_or_def truthy_def)
  have "0 \<le> i" using assms by simp
  note d = derivation_of_int [OF this, of p]
  show "augment r p = enriched_by_formula i p"
    unfolding augment_def Let_def t by (rule d)
  show "details_augment r p = enriched_by_formula i p"
    unfolding details_augment_def Let_def t by (rule d)
qed

lemma floor_draw:
  "Math_floor (js_mul (Finite r) (Finite n)) = Finite (of_int \<lfloor>r * n\<rfloor>)"
  by (simp add: Math_floor_def)

lemma augment_fallback:
  assumes "\<not> truthy (Number (id_val p))" and "0 \<le> r"
  shows "augment r p = enriched_by_formula \<lfloor>r * 1000\<rfloor> p"
    and "details_augment r p = enriched_by_formula \<lfloor>r * 10000\<rfloor> p"
proof -
  have a: "0 \<le> \<lfloor>r * 1000\<rfloor>" and b: "0 \<le> \<lfloor>r * 10000\<rfloor>"
    using assms(2) by simp_all
  have t: "js_or (Number (id_val p)) x = x" for x
    using assms(1) by (simp add: js_or_def)
  show "augment r p = enriched_by_formula \<lfloor>r * 1000\<rfloor> p"
    unfolding augment_def Let_def t floor_draw by (rule derivation_of_int [OF a])
  show "details_augment r p = enriched_by_formula \<lfloor>r * 10000\<rfloor> p"
    unfolding details_augment_def Let_def t floor_draw by (rule derivation_of_int [OF b])
qed

lemma augment_ignores_draw:
  assumes "truthy (Number (id_val p))"
  shows "augment r p = augment r' p" and "details_augment r' p = augment r p"
  using assms by (simp_all add: augment_def details_augment_def js_or_def)

lemma price_enriched [simp]:
  "price (enriched_by_formula k p) = Finite (of_int ((k * 97) mod 149500 + 500))"
  "category (enriched_by_formula k p) = Some (categories ! nat (k mod 5))"
  by (simp_all add: enriched_by_formula_def with_category_price_def)

lemma item_eq:
  "0 < k \<Longrightarrow> item k t =
     \<lparr>id_val = NumV (Finite (of_int k)), title = t, url = [], thumbnailUrl = [],
      category = Some (categories ! nat (k mod 5)),
      price = Finite (of_int ((k * 97) mod 149500 + 500))\<rparr>"
  unfolding item_def
  by (subst augment_by_formula(1) [of _ k])
    (simp_all add: photo_of_def Number_def enriched_by_formula_def with_category_price_def)

lemma example_items:
  "item 1 ''Red Phone'' = \<lparr>id_val = NumV (Finite 1), title = ''Red Phone'', url = [],
      thumbnailUrl = [], category = Some ''Laptop'', price = Finite 597\<rparr>"
  "item 2 ''Blue Laptop'' = \<lparr>id_val = NumV (Finite 2), title = ''Blue Laptop'', url = [],
      thumbnailUrl = [], category = Some ''Accessories'', price = Finite 694\<rparr>"
  "item 149501 ''Red Case'' = \<lparr>id_val = NumV (Finite 149501), title = ''Red Case'', url = [],
      thumbnailUrl = [], category = Some ''Laptop'', price = Finite 597\<rparr>"
  using item_eq [of 1 "''Red Phone''"] item_eq [of 2 "''Blue Laptop''"]
    item_eq [of 149501 "''Red Case''"]
  by (simp_all add: categories_def)

text \<open>
  Claim C6: an item with id 1 gets the category Laptop and the price 597, and an item
  with id 10 gets the category Mobile and the price 1470, whether the id is the number or
  its decimal text, and whatever the random source would return.
\<close>

theorem augment_examples:
  "category (augment r (p\<lparr>id_val := NumV (Finite 1)\<rparr>)) = Some ''Laptop''
   \<and> price (augment r (p\<lparr>id_val := NumV (Finite 1)\<rparr>)) = Finite 597
   \<and> category (augment r (p\<lparr>id_val := NumV (Finite 10)\<rparr>)) = Some ''Mobile''
   \<and> price (augment r (p\<lparr>id_val := NumV (Finite 10)\<rparr>)) = Finite 1470
   \<and> category (augment r (p\<lparr>id_val := StrV ''1''\<rparr>)) = Some ''Laptop''
   \<and> price (augment r (p\<lparr>id_val := StrV ''1''\<rparr>)) = Finite 597
   \<and> category (augment r (p\<lparr>id_val := StrV ''10''\<rparr>)) = Some ''Mobile''
   \<and> price (augment r (p\<lparr>id_val := StrV ''10''\<rparr>)) = Finite 1470"
proof -
  have n1: "augment r (p\<lparr>id_val := NumV (Finite 1)\<rparr>)
              = enriched_by_formula 1 (p\<lparr>id_val := NumV (Finite 1)\<rparr>)"
    by (rule augment_by_formula) (simp_all add: Number_def)
  have n10: "augment r (p\<lparr>id_val := NumV (Finite 10)\<rparr>)
              = enriched_by_formula 10 (p\<lparr>id_val := NumV (Finite 10)\<rparr>)"
    by (rule augment_by_formula) (simp_all add: Number_def)
  have s1: "augment r (p\<lparr>id_val := StrV ''1''\<rparr>)
              = enriched_by_formula 1 (p\<lparr>id_val := StrV ''1''\<rparr>)"
    by (rule augment_by_formula) (simp_all add: Number_text)
  have s10: "augment r (p\<lparr>id_val := StrV ''10''\<rparr>)
              = enriched_by_formula 10 (p\<lparr>id_val := StrV ''10''\<rparr>)"
    by (rule augment_by_formula) (simp_all add: Number_text)
  show ?thesis
    unfolding n1 n10 s1 s10
    by (simp add: enriched_by_formula_def with_category_price_def categories_def)
qed

text \<open>
  Claim C2, as amended: the result of \<open>augment\<close> does not depend on the random
  source (the fallback is not taken, so repeated calls agree) whenever the id converts to
  a number that is neither \<open>NaN\<close> nor zero, and for
  an id that converts to a positive integer \<open>i\<close> (with \<open>i * 97\<close> exactly representable)
  the category is the label at index \<open>i mod 5\<close> and the price is
  \<open>((i * 97) mod 149500) + 500\<close>.
\<close>

theorem augment_deterministic:
  "(truthy (Number (id_val p)) \<longrightarrow> augment r p = augment r' p)
   \<and> (Number (id_val p) = Finite (of_int i) \<and> 0 < i \<and> i * 97 \<le> 2 ^ 53 \<longrightarrow>
        category (augment r p) = Some (categories ! nat (i mod 5))
        \<and> price (augment r p) = Finite (of_int ((i * 97) mod 149500 + 500)))"
  using augment_ignores_draw(1) [of p r r'] augment_by_formula(1) [of p i r]
  by simp

text \<open>
  The amended claim C2 at the id \<open>"7"\<close>.
\<close>

theorem augment_deterministic_witness:
  "truthy (Number (id_val (photo_of (StrV ''7'') ''Lamp'')))
   \<and> augment 0 (photo_of (StrV ''7'') ''Lamp'') = augment (1 / 2) (photo_of (StrV ''7'') ''Lamp'')
   \<and> Number (id_val (photo_of (StrV ''7'') ''Lamp'')) = Finite (of_int 7)
   \<and> (0::int) < 7 \<and> (7::int) * 97 \<le> 2 ^ 53
   \<and> category (augment 0 (photo_of (StrV ''7'') ''Lamp'')) = Some ''Accessories''
   \<and> price (augment 0 (photo_of (StrV ''7'') ''Lamp'')) = Finite 1179"
proof -
  note w = augment_deterministic
    [where p = "photo_of (StrV ''7'') ''Lamp''" and r = 0 and r' = "1 / 2" and i = 7]
  have n: "Number (id_val (photo_of (StrV ''7'') ''Lamp'')) = Finite (of_int 7)"
    by (simp add: photo_of_def Number_text)
  then have t: "truthy (Number (id_val (photo_of (StrV ''7'') ''Lamp'')))"
    by (simp add: truthy_def)
  have b: "(0::int) < 7" "(7::int) * 97 \<le> 2 ^ 53"
    by simp_all
  have e: "augment 0 (photo_of (StrV ''7'') ''Lamp'') = augment (1 / 2) (photo_of (StrV ''7'') ''Lamp'')"
    using w t by blast
  have "category (augment 0 (photo_of (StrV ''7'') ''Lamp'')) = Some (categories ! nat (7 mod 5))
        \<and> price (augment 0 (photo_of (StrV ''7'') ''Lamp'')) = Finite (of_int ((7 * 97) mod 149500 + 500))"
    using w n b by blast
  then have c: "category (augment 0 (photo_of (StrV ''7'') ''Lamp'')) = Some ''Accessories''"
    "price (augment 0 (photo_of (StrV ''7'') ''Lamp'')) = Finite 1179"
    by (simp_all add: categories_def)
  from t e n b c show ?thesis by blast
qed

text \<open>
  Claim C2 as stated fails for the id 0: the id is present and numeric, yet the
  fallback is taken and two calls give different prices.
\<close>

theorem augment_zero_id_counterexample:
  "Number (id_val (photo_of (NumV (Finite 0)) ''Lamp'')) = Finite 0
   \<and> price (augment 0 (photo_of (NumV (Finite 0)) ''Lamp'')) = Finite 500
   \<and> price (augment (1 / 2) (photo_of (NumV (Finite 0)) ''Lamp'')) = Finite 49000"
proof -
  have f: "\<not> truthy (Number (id_val (photo_of (NumV (Finite 0)) ''Lamp'')))"
    by (simp add: photo_of_def Number_def truthy_def)
  show ?thesis
    using augment_fallback(1) [OF f, of 0] augment_fallback(1) [OF f, of "1 / 2"]
    by (simp add: photo_of_def Number_def)
qed

lemma augment_price_range:
  assumes "Number (id_val p) = Finite (of_int i)" and "0 < i" and "i * 97 \<le> 2 ^ 53"
  shows "\<exists>v. price (augment r p) = Finite (of_int v) \<and> 500 \<le> v \<and> v < 150000"
proof -
  have "0 \<le> (i * 97) mod 149500" and "(i * 97) mod 149500 < 149500"
    by simp_all
  then show ?thesis
    unfolding augment_by_formula(1) [OF assms(1,2)] by (intro exI [of _ "(i * 97) mod 149500 + 500"]) simp
qed

text \<open>
  Claim C5 at the id \<open>-1\<close>: the remainder keeps the sign of the dividend, the price is
  403, below 500, and the category is \<open>undefined\<close>.
\<close>

theorem augment_negative_id_price:
  "price (augment r (p\<lparr>id_val := NumV (Finite (- 1))\<rparr>)) = Finite 403
   \<and> category (augment r (p\<lparr>id_val := NumV (Finite (- 1))\<rparr>)) = None"
  by (simp add: augment_def Number_def js_or_def truthy_def trunc_def Math_floor_def
      with_category_price_def array_get_def categories_def)

lemma fallback_attained:
  assumes "\<not> truthy (Number (id_val p))" and "0 \<le> k"
  shows "k < 1000 \<Longrightarrow> \<exists>r. 0 \<le> r \<and> r < 1 \<and> augment r p = enriched_by_formula k p"
    and "k < 10000 \<Longrightarrow> \<exists>r. 0 \<le> r \<and> r < 1 \<and> details_augment r p = enriched_by_formula k p"
proof -
  assume "k < 1000"
  then have "0 \<le> real_of_int k / 1000" "real_of_int k / 1000 < 1"
    "\<lfloor>real_of_int k / 1000 * 1000\<rfloor> = k"
    using assms(2) by simp_all
  then show "\<exists>r. 0 \<le> r \<and> r < 1 \<and> augment r p = enriched_by_formula k p"
    using augment_fallback(1) [OF assms(1), of "real_of_int k / 1000"] by metis
next
  assume "k < 10000"
  then have "0 \<le> real_of_int k / 10000" "real_of_int k / 10000 < 1"
    "\<lfloor>real_of_int k / 10000 * 10000\<rfloor> = k"
    using assms(2) by simp_all
  then show "\<exists>r. 0 \<le> r \<and> r < 1 \<and> details_augment r p = enriched_by_formula k p"
    using augment_fallback(2) [OF assms(1), of "real_of_int k / 10000"] by metis
qed

text \<open>
  Different ids below 149500 get different prices: 97 is invertible modulo 149500.
\<close>

lemma price_formula_inj:
  assumes "(a * 97) mod 149500 = (k * 97) mod (149500::int)"
    and "0 \<le> a" "a < 149500" "0 \<le> k" "k < 149500"
  shows "a = k"
proof -
  have inv: "x * 97 * 90933 mod 149500 = x mod (149500::int)" for x
  proof -
    have "x * 97 * 90933 = x + 149500 * (x * 59)" by simp
    then show ?thesis by (metis mod_mult_self2)
  qed
  have "(a * 97) mod 149500 * 90933 mod 149500 = (k * 97) mod 149500 * 90933 mod (149500::int)"
    using assms(1) by simp
  then have "a * 97 * 90933 mod 149500 = k * 97 * 90933 mod (149500::int)"
    by (simp only: mod_mult_left_eq)
  then have "a mod 149500 = k mod (149500::int)"
    by (simp only: inv)
  with assms(2-5) show ?thesis by simp
qed

lemma enriched_by_formula_inj:
  assumes "enriched_by_formula a p = enriched_by_formula k p"
    and "0 \<le> a" "a < 149500" "0 \<le> k" "k < 149500"
  shows "a = k"
proof -
  from assms(1) have "price (enriched_by_formula a p) = price (enriched_by_formula k p)"
    by simp
  then have "(a * 97) mod 149500 = (k * 97) mod (149500::int)"
    by simp
  then show ?thesis using assms(2-5) by (rule price_formula_inj)
qed

lemma list_fallback_below_1000:
  assumes "\<not> truthy (Number (id_val p))" and "0 \<le> r" "r < 1" and "1000 \<le> k" "k < 10000"
  shows "augment r p \<noteq> enriched_by_formula k p"
proof
  assume e: "augment r p = enriched_by_formula k p"
  have b: "0 \<le> \<lfloor>r * 1000\<rfloor>" "\<lfloor>r * 1000\<rfloor> < 1000"
    using assms(2,3) by (simp_all add: floor_less_iff)
  have "enriched_by_formula \<lfloor>r * 1000\<rfloor> p = enriched_by_formula k p"
    using e augment_fallback(1) [OF assms(1,2)] by simp
  then have "\<lfloor>r * 1000\<rfloor> = k"
    using b assms(4,5) by (intro enriched_by_formula_inj [of _ p]) simp_all
  with b assms(4) show False by simp
qed

lemma Number_Null: "Number Null = Finite 0"
  by (simp add: Number_def)

text \<open>
  Claim C9, as amended: the list view and the detail view compute the same enriched item
  whenever the id converts to a number that is neither \<open>NaN\<close> nor zero. For every other
  id (absent, not numeric, \<open>null\<close>, empty or zero) both take their random fallback and
  differ only in it: each applies the same derivation to an integer, the list view to one
  in \<open>[0, 1000)\<close> and the detail view to one in \<open>[0, 10000)\<close>; every integer of each
  range is reached by some draw, and the list view never gives the item of an integer
  from 1000 on, which the detail view does give.
\<close>

theorem details_augment_agrees:
  "(truthy (Number (id_val p)) \<longrightarrow> details_augment r' p = augment r p)
   \<and> (\<not> truthy (Number (id_val p)) \<and> 0 \<le> r \<and> r < 1 \<longrightarrow>
        (\<exists>k. 0 \<le> k \<and> k < 1000 \<and> augment r p = enriched_by_formula k p)
        \<and> (\<exists>k. 0 \<le> k \<and> k < 10000 \<and> details_augment r p = enriched_by_formula k p))
   \<and> (\<not> truthy (Number (id_val p)) \<and> 0 \<le> k \<and> k < 1000 \<longrightarrow>
        (\<exists>r. 0 \<le> r \<and> r < 1 \<and> augment r p = enriched_by_formula k p))
   \<and> (\<not> truthy (Number (id_val p)) \<and> 0 \<le> k \<and> k < 10000 \<longrightarrow>
        (\<exists>r. 0 \<le> r \<and> r < 1 \<and> details_augment r p = enriched_by_formula k p))
   \<and> (\<not> truthy (Number (id_val p)) \<and> 0 \<le> r \<and> r < 1 \<and> 1000 \<le> k \<and> k < 10000 \<longrightarrow>
        augment r p \<noteq> enriched_by_formula k p)"
proof -
  have a: "\<exists>k. 0 \<le> k \<and> k < 1000 \<and> augment r p = enriched_by_formula k p"
    and d: "\<exists>k. 0 \<le> k \<and> k < 10000 \<and> details_augment r p = enriched_by_formula k p"
    if "\<not> truthy (Number (id_val p))" "0 \<le> r" "r < 1"
  proof -
    have "0 \<le> \<lfloor>r * 1000\<rfloor>" "\<lfloor>r * 1000\<rfloor> < 1000" "0 \<le> \<lfloor>r * 10000\<rfloor>" "\<lfloor>r * 10000\<rfloor> < 10000"
      using that(2,3) by (simp_all add: floor_less_iff)
    then show "\<exists>k. 0 \<le> k \<and> k < 1000 \<and> augment r p = enriched_by_formula k p"
      and "\<exists>k. 0 \<le> k \<and> k < 10000 \<and> details_augment r p = enriched_by_formula k p"
      using augment_fallback [OF that(1,2)] by blast+
  qed
  show ?thesis
    using augment_ignores_draw(2) [of p r' r] a d fallback_attained [of p k]
      list_fallback_below_1000 [of p r k]
    by blast
qed

text \<open>
  The amended claim C9 at the id \<open>"7"\<close> and at the id \<open>null\<close>.
\<close>

theorem details_augment_agrees_witness:
  "truthy (Number (id_val (photo_of (StrV ''7'') ''Lamp'')))
   \<and> details_augment (1 / 4) (photo_of (StrV ''7'') ''Lamp'')
       = augment (1 / 2) (photo_of (StrV ''7'') ''Lamp'')
   \<and> \<not> truthy (Number (id_val (photo_of Null ''Lamp''))) \<and> (0::real) \<le> 1 / 2 \<and> (1::real) / 2 < 1
   \<and> (\<exists>k. 0 \<le> k \<and> k < 1000
          \<and> augment (1 / 2) (photo_of Null ''Lamp'') = enriched_by_formula k (photo_of Null ''Lamp''))
   \<and> (\<exists>k. 0 \<le> k \<and> k < 10000
          \<and> details_augment (1 / 2) (photo_of Null ''Lamp'')
              = enriched_by_formula k (photo_of Null ''Lamp''))
   \<and> (0::int) \<le> 999 \<and> (999::int) < 1000
   \<and> (\<exists>r. 0 \<le> r \<and> r < 1
          \<and> augment r (photo_of Null ''Lamp'') = enriched_by_formula 999 (photo_of Null ''Lamp''))
   \<and> (1000::int) \<le> 5000 \<and> (5000::int) < 10000
   \<and> (\<exists>r. 0 \<le> r \<and> r < 1
          \<and> details_augment r (photo_of Null ''Lamp'') = enriched_by_formula 5000 (photo_of Null ''Lamp''))
   \<and> augment (1 / 2) (photo_of Null ''Lamp'') \<noteq> enriched_by_formula 5000 (photo_of Null ''Lamp'')"
proof -
  have t: "truthy (Number (id_val (photo_of (StrV ''7'') ''Lamp'')))"
    by (simp add: photo_of_def Number_text truthy_def)
  have n: "\<not> truthy (Number (id_val (photo_of Null ''Lamp'')))"
    by (simp add: photo_of_def Number_Null truthy_def)
  have b: "(0::real) \<le> 1 / 2" "(1::real) / 2 < 1" "(0::int) \<le> 999" "(999::int) < 1000"
    "(1000::int) \<le> 5000" "(5000::int) < 10000" "(0::int) \<le> 5000"
    by simp_all
  note w7 = details_augment_agrees
      [where p = "photo_of (StrV ''7'') ''Lamp''" and r' = "1 / 4" and r = "1 / 2"]
  note w1 = details_augment_agrees [where p = "photo_of Null ''Lamp''" and r = "1 / 2" and k = 999]
  note w2 = details_augment_agrees [where p = "photo_of Null ''Lamp''" and r = "1 / 2" and k = 5000]
  from t w7 have c1: "details_augment (1 / 4) (photo_of (StrV ''7'') ''Lamp'')
       = augment (1 / 2) (photo_of (StrV ''7'') ''Lamp'')" by blast
  from n b w1 have c2: "\<exists>k. 0 \<le> k \<and> k < 1000
          \<and> augment (1 / 2) (photo_of Null ''Lamp'') = enriched_by_formula k (photo_of Null ''Lamp'')"
    "\<exists>k. 0 \<le> k \<and> k < 10000
          \<and> details_augment (1 / 2) (photo_of Null ''Lamp'')
              = enriched_by_formula k (photo_of Null ''Lamp'')"
    "\<exists>r. 0 \<le> r \<and> r < 1
          \<and> augment r (photo_of Null ''Lamp'') = enriched_by_formula 999 (photo_of Null ''Lamp'')"
    by blast+
  from n b w2 have c3: "\<exists>r. 0 \<le> r \<and> r < 1
          \<and> details_augment r (photo_of Null ''Lamp'') = enriched_by_formula 5000 (photo_of Null ''Lamp'')"
    "augment (1 / 2) (photo_of Null ''Lamp'') \<noteq> enriched_by_formula 5000 (photo_of Null ''Lamp'')"
    by blast+
  from t n b c1 c2 c3 show ?thesis by blast
qed

text \<open>
  Claim C9 as stated fails for the id \<open>"0"\<close>: it is numeric, both views take their
  fallback, and with the same random draw the prices differ.
\<close>

theorem details_zero_id_counterexample:
  "Number (id_val (photo_of (StrV ''0'') ''Lamp'')) = Finite 0
   \<and> price (augment (1 / 2) (photo_of (StrV ''0'') ''Lamp'')) = Finite 49000
   \<and> price (details_augment (1 / 2) (photo_of (StrV ''0'') ''Lamp'')) = Finite 37000"
proof -
  have n: "Number (id_val (photo_of (StrV ''0'') ''Lamp'')) = Finite 0"
    by (simp add: photo_of_def Number_text)
  then have f: "\<not> truthy (Number (id_val (photo_of (StrV ''0'') ''Lamp'')))"
    by (simp add: truthy_def)
  show ?thesis
    using n augment_fallback [OF f, of "1 / 2"] by simp
qed

section \<open>Properties of the pipeline\<close>

subsection \<open>Order facts on numbers\<close>

lemma js_le_not_NaN: "js_le a b \<Longrightarrow> a \<noteq> NaN \<and> b \<noteq> NaN"
  by (cases a; cases b) simp_all

lemma js_le_trans: "js_le a b \<Longrightarrow> js_le b c \<Longrightarrow> js_le a c"
  by (cases a; cases b; cases c) simp_all

lemma js_le_total: "a \<noteq> NaN \<Longrightarrow> b \<noteq> NaN \<Longrightarrow> js_le a b \<or> js_le b a"
  by (cases a; cases b) auto

lemma positive_sub_iff:
  "a \<noteq> NaN \<Longrightarrow> b \<noteq> NaN \<Longrightarrow> positive (js_sub a b) \<longleftrightarrow> \<not> js_le a b"
  by (cases a; cases b) (auto simp: positive_def js_sub_def js_neg_def)

lemma not_positive_sub_same: "\<not> positive (js_sub a a)"
  by (cases a) (simp_all add: positive_def js_sub_def js_neg_def)

lemma js_le_not_positive: "js_le a b \<Longrightarrow> \<not> positive (js_sub a b)"
  by (cases a; cases b) (auto simp: positive_def js_sub_def js_neg_def)

subsection \<open>The insertion sort\<close>

lemma set_insert_by: "set (insert_by cmp x ys) = insert x (set ys)"
  by (induction ys) auto

lemma array_sort_Nil: "array_sort cmp [] = []"
  by (simp add: array_sort_def)

lemma array_sort_Cons: "array_sort cmp (x # xs) = insert_by cmp x (array_sort cmp xs)"
  by (simp add: array_sort_def)

lemma set_array_sort: "set (array_sort cmp xs) = set xs"
  by (induction xs) (simp_all add: array_sort_def set_insert_by)

lemma filter_insert_by_neg: "\<not> P x \<Longrightarrow> filter P (insert_by cmp x ys) = filter P ys"
  by (induction ys) simp_all

lemma filter_insert_by_pos:
  assumes "P x" and "\<And>y. P y \<Longrightarrow> \<not> positive (cmp x y)"
  shows "filter P (insert_by cmp x ys) = x # filter P ys"
  using assms by (induction ys) auto

lemma array_sort_stable:
  assumes "\<And>x y. key x = key y \<Longrightarrow> \<not> positive (cmp x y)"
  shows "filter (\<lambda>y. key y = v) (array_sort cmp xs) = filter (\<lambda>y. key y = v) xs"
proof (induction xs)
  case Nil
  show ?case by (simp add: array_sort_Nil)
next
  case (Cons x xs)
  show ?case
  proof (cases "key x = v")
    case True
    have "filter (\<lambda>y. key y = v) (insert_by cmp x (array_sort cmp xs))
            = x # filter (\<lambda>y. key y = v) (array_sort cmp xs)"
      by (rule filter_insert_by_pos) (simp_all add: True assms)
    with Cons True show ?thesis by (simp add: array_sort_Cons)
  next
    case False
    with Cons show ?thesis by (simp add: array_sort_Cons filter_insert_by_neg)
  qed
qed

lemma sorted_insert_by:
  assumes tot: "\<And>y. y \<in> set ys \<Longrightarrow> positive (cmp x y) \<Longrightarrow> R y x"
    and le: "\<And>y. y \<in> set ys \<Longrightarrow> \<not> positive (cmp x y) \<Longrightarrow> R x y"
    and trans: "\<And>y z. y \<in> set ys \<Longrightarrow> z \<in> set ys \<Longrightarrow> R x y \<Longrightarrow> R y z \<Longrightarrow> R x z"
    and "sorted_wrt R ys"
  shows "sorted_wrt R (insert_by cmp x ys)"
  using assms
proof (induction ys)
  case Nil
  show ?case by simp
next
  case (Cons y ys)
  show ?case
  proof (cases "positive (cmp x y)")
    case True
    have "sorted_wrt R (insert_by cmp x ys)"
      using Cons.prems by (intro Cons.IH) auto
    moreover have "R y x" using Cons.prems(1) True by simp
    ultimately show ?thesis
      using True Cons.prems(4) by (auto simp: set_insert_by)
  next
    case False
    then have xy: "R x y" using Cons.prems(2) by simp
    have "R x z" if "z \<in> set ys" for z
      using Cons.prems(3) [of y z] Cons.prems(4) xy that by auto
    with xy False Cons.prems(4) show ?thesis by auto
  qed
qed

lemma array_sort_fixes_sorted:
  "sorted_wrt (\<lambda>a b. \<not> positive (cmp a b)) xs \<Longrightarrow> array_sort cmp xs = xs"
proof (induction xs)
  case Nil
  show ?case by (simp add: array_sort_Nil)
next
  case (Cons x xs)
  then have "array_sort cmp xs = xs" by simp
  with Cons.prems show ?case
    by (cases xs) (simp_all add: array_sort_Cons)
qed

lemma sorted_by_price_asc:
  assumes "\<And>p. p \<in> set xs \<Longrightarrow> price p \<noteq> NaN"
  shows "sorted_wrt (\<lambda>a b. js_le (price a) (price b)) (array_sort by_price_asc xs)"
  using assms
proof (induction xs)
  case Nil
  show ?case by (simp add: array_sort_Nil)
next
  case (Cons x xs)
  have nn: "price y \<noteq> NaN" if "y \<in> set (array_sort by_price_asc xs)" for y
    using that Cons.prems by (simp add: set_array_sort)
  have nx: "price x \<noteq> NaN" using Cons.prems by simp
  have "sorted_wrt (\<lambda>a b. js_le (price a) (price b))
          (insert_by by_price_asc x (array_sort by_price_asc xs))"
  proof (rule sorted_insert_by)
    fix y assume "y \<in> set (array_sort by_price_asc xs)" "positive (by_price_asc x y)"
    then show "js_le (price y) (price x)"
      using positive_sub_iff [OF nx nn] js_le_total [OF nx nn] by (auto simp: by_price_asc_def)
  next
    fix y assume "y \<in> set (array_sort by_price_asc xs)" "\<not> positive (by_price_asc x y)"
    then show "js_le (price x) (price y)"
      using positive_sub_iff [OF nx nn] by (auto simp: by_price_asc_def)
  next
    fix y z assume "js_le (price x) (price y)" "js_le (price y) (price z)"
    then show "js_le (price x) (price z)" by (rule js_le_trans)
  next
    show "sorted_wrt (\<lambda>a b. js_le (price a) (price b)) (array_sort by_price_asc xs)"
      using Cons by simp
  qed
  then show ?case by (simp add: array_sort_Cons)
qed

lemma sorted_by_price_desc:
  assumes "\<And>p. p \<in> set xs \<Longrightarrow> price p \<noteq> NaN"
  shows "sorted_wrt (\<lambda>a b. js_le (price b) (price a)) (array_sort by_price_desc xs)"
  using assms
proof (induction xs)
  case Nil
  show ?case by (simp add: array_sort_Nil)
next
  case (Cons x xs)
  have nn: "price y \<noteq> NaN" if "y \<in> set (array_sort by_price_desc xs)" for y
    using that Cons.prems by (simp add: set_array_sort)
  have nx: "price x \<noteq> NaN" using Cons.prems by simp
  have "sorted_wrt (\<lambda>a b. js_le (price b) (price a))
          (insert_by by_price_desc x (array_sort by_price_desc xs))"
  proof (rule sorted_insert_by)
    fix y assume "y \<in> set (array_sort by_price_desc xs)" "positive (by_price_desc x y)"
    then show "js_le (price x) (price y)"
      using positive_sub_iff [OF nn nx] js_le_total [OF nx nn] by (auto simp: by_price_desc_def)
  next
    fix y assume "y \<in> set (array_sort by_price_desc xs)" "\<not> positive (by_price_desc x y)"
    then show "js_le (price y) (price x)"
      using positive_sub_iff [OF nn nx] by (auto simp: by_price_desc_def)
  next
    fix y z assume "js_le (price y) (price x)" "js_le (price z) (price y)"
    then show "js_le (price z) (price x)" using js_le_trans by blast
  next
    show "sorted_wrt (\<lambda>a b. js_le (price b) (price a)) (array_sort by_price_desc xs)"
      using Cons by simp
  qed
  then show ?case by (simp add: array_sort_Cons)
qed

subsection \<open>Filtering, then sorting\<close>

lemma take_eq_iff_prefix: "take (length t) s = t \<longleftrightarrow> prefix t s"
  by (metis append_eq_conv_conj prefix_def take_is_prefix)

lemma includes_str_sublist: "includes_str s t \<longleftrightarrow> sublist t s"
proof (induction s)
  case Nil
  show ?case by simp
next
  case (Cons c cs)
  have "includes_str (c # cs) t \<longleftrightarrow> prefix t (c # cs) \<or> includes_str cs t"
    using take_eq_iff_prefix [of t "c # cs"] by simp
  with Cons show ?case by (simp add: sublist_Cons_right)
qed

lemma filter_passes:
  "filter (in_price_range f)
     ((if categoryF f \<noteq> [] then filter (matches_category f) else (\<lambda>xs. xs))
        ((if search f \<noteq> [] then filter (matches_search f) else (\<lambda>xs. xs)) xs))
   = filter (passes f) xs"
  by (auto simp: passes_def intro: filter_cong)

lemma filtered_unsorted:
  "sortF f \<noteq> ''asc'' \<Longrightarrow> sortF f \<noteq> ''desc'' \<Longrightarrow> filtered xs f = filter (passes f) xs"
  using filter_passes [of f xs] by (simp add: filtered_def Let_def if_distrib [of "\<lambda>g. g _"])

lemma filtered_asc:
  "sortF f = ''asc'' \<Longrightarrow> filtered xs f = array_sort by_price_asc (filter (passes f) xs)"
  using filter_passes [of f xs] by (simp add: filtered_def Let_def if_distrib [of "\<lambda>g. g _"])

lemma filtered_desc:
  "sortF f = ''desc'' \<Longrightarrow> filtered xs f = array_sort by_price_desc (filter (passes f) xs)"
  using filter_passes [of f xs] by (simp add: filtered_def Let_def if_distrib [of "\<lambda>g. g _"])

lemma set_filtered: "set (filtered xs f) = {p \<in> set xs. passes f p}"
proof -
  consider "sortF f = ''asc''" | "sortF f = ''desc''" | "sortF f \<noteq> ''asc''" "sortF f \<noteq> ''desc''"
    by blast
  then show ?thesis
    by cases (simp_all add: filtered_asc filtered_desc filtered_unsorted set_array_sort)
qed

lemma passes_price_not_NaN: "passes f p \<Longrightarrow> price p \<noteq> NaN"
  using js_le_not_NaN by (auto simp: passes_def in_price_range_def js_ge_def)

lemma filtered_sorted_asc:
  assumes "sortF f = ''asc''"
  shows "sorted_wrt (\<lambda>a b. js_le (price a) (price b)) (filtered xs f)"
  unfolding filtered_asc [OF assms]
  by (rule sorted_by_price_asc) (auto dest: passes_price_not_NaN)

lemma filtered_sorted_desc:
  assumes "sortF f = ''desc''"
  shows "sorted_wrt (\<lambda>a b. js_le (price b) (price a)) (filtered xs f)"
  unfolding filtered_desc [OF assms]
  by (rule sorted_by_price_desc) (auto dest: passes_price_not_NaN)

lemma filtered_stable:
  "filter (\<lambda>p. price p = v) (filtered xs f) = filter (\<lambda>p. price p = v) (filter (passes f) xs)"
proof -
  have a: "filter (\<lambda>p. price p = v) (array_sort by_price_asc ys) = filter (\<lambda>p. price p = v) ys" for ys
    by (rule array_sort_stable) (simp add: by_price_asc_def not_positive_sub_same)
  have d: "filter (\<lambda>p. price p = v) (array_sort by_price_desc ys) = filter (\<lambda>p. price p = v) ys" for ys
    by (rule array_sort_stable) (simp add: by_price_desc_def not_positive_sub_same)
  consider "sortF f = ''asc''" | "sortF f = ''desc''" | "sortF f \<noteq> ''asc''" "sortF f \<noteq> ''desc''"
    by blast
  then show ?thesis
  proof cases
    case 1
    then show ?thesis by (simp only: filtered_asc a)
  next
    case 2
    then show ?thesis by (simp only: filtered_desc d)
  next
    case 3
    then show ?thesis using filtered_unsorted [of f xs] by simp
  qed
qed

lemma filter_all: "(\<And>x. x \<in> set xs \<Longrightarrow> P x) \<Longrightarrow> filter P xs = xs"
  by (induction xs) simp_all

text \<open>
  Claim C7: applying the pipeline to its own output with the same filters gives the
  same sequence.
\<close>

theorem filtered_idempotent: "filtered (filtered xs f) f = filtered xs f"
proof -
  have same: "filter (passes f) (filtered xs f) = filtered xs f"
    by (rule filter_all) (simp add: set_filtered)
  consider (asc) "sortF f = ''asc''" | (desc) "sortF f = ''desc''"
    | (none) "sortF f \<noteq> ''asc''" "sortF f \<noteq> ''desc''"
    by blast
  then show ?thesis
  proof cases
    case asc
    have "sorted_wrt (\<lambda>a b. \<not> positive (by_price_asc a b)) (filtered xs f)"
      using filtered_sorted_asc [OF asc, of xs]
      by (rule sorted_wrt_mono_rel [rotated]) (simp add: by_price_asc_def js_le_not_positive)
    then have "array_sort by_price_asc (filtered xs f) = filtered xs f"
      by (rule array_sort_fixes_sorted)
    then show ?thesis
      using filtered_asc [OF asc, of "filtered xs f"] same by simp
  next
    case desc
    have "sorted_wrt (\<lambda>a b. \<not> positive (by_price_desc a b)) (filtered xs f)"
      using filtered_sorted_desc [OF desc, of xs]
      by (rule sorted_wrt_mono_rel [rotated]) (simp add: by_price_desc_def js_le_not_positive)
    then have "array_sort by_price_desc (filtered xs f) = filtered xs f"
      by (rule array_sort_fixes_sorted)
    then show ?thesis
      using filtered_desc [OF desc, of "filtered xs f"] same by simp
  next
    case none
    then show ?thesis
      using filtered_unsorted [of f "filtered xs f"] same by simp
  qed
qed

lemma example_sorts:
  "filtered [item 2 ''Blue Laptop'', item 1 ''Red Phone'', item 149501 ''Red Case'']
     (initial_filters\<lparr>sortF := ''asc''\<rparr>)
   = [item 1 ''Red Phone'', item 149501 ''Red Case'', item 2 ''Blue Laptop'']"
  "filtered [item 1 ''Red Phone'', item 2 ''Blue Laptop'', item 149501 ''Red Case'']
     (initial_filters\<lparr>sortF := ''desc''\<rparr>)
   = [item 2 ''Blue Laptop'', item 1 ''Red Phone'', item 149501 ''Red Case'']"
  unfolding example_items
  by (simp_all add: filtered_def initial_filters_def in_price_range_def minP_def maxP_def
      js_or_def truthy_def js_ge_def Number_text array_sort_def by_price_asc_def
      by_price_desc_def js_sub_def js_neg_def positive_def)

text \<open>
  Claim C4: with the sort \<open>asc\<close> the output prices never decrease, with \<open>desc\<close>
  they never increase; in every case the items of one price stand in the output in the
  order they have in the input; and without a sort the output is the input with the
  rejected items left out.
\<close>

theorem filtered_sort_order:
  "(sortF f = ''asc'' \<longrightarrow> sorted_wrt (\<lambda>a b. js_le (price a) (price b)) (filtered xs f))
   \<and> (sortF f = ''desc'' \<longrightarrow> sorted_wrt (\<lambda>a b. js_le (price b) (price a)) (filtered xs f))
   \<and> filter (\<lambda>p. price p = v) (filtered xs f)
       = filter (\<lambda>p. price p = v) (filter (passes f) xs)
   \<and> (sortF f \<noteq> ''asc'' \<and> sortF f \<noteq> ''desc'' \<longrightarrow> filtered xs f = filter (passes f) xs)"
  using filtered_sorted_asc [of f xs] filtered_sorted_desc [of f xs] filtered_stable [of v xs f]
    filtered_unsorted [of f xs]
  by blast

text \<open>
  Claim C4 on three items, two of them with the price 597, for each of the three sort
  settings.
\<close>

theorem filtered_sort_order_witness:
  "sortF (initial_filters\<lparr>sortF := ''asc''\<rparr>) = ''asc''
   \<and> sorted_wrt (\<lambda>a b. js_le (price a) (price b))
        (filtered [item 2 ''Blue Laptop'', item 1 ''Red Phone'', item 149501 ''Red Case'']
           (initial_filters\<lparr>sortF := ''asc''\<rparr>))
   \<and> filtered [item 2 ''Blue Laptop'', item 1 ''Red Phone'', item 149501 ''Red Case'']
        (initial_filters\<lparr>sortF := ''asc''\<rparr>)
      = [item 1 ''Red Phone'', item 149501 ''Red Case'', item 2 ''Blue Laptop'']
   \<and> sortF (initial_filters\<lparr>sortF := ''desc''\<rparr>) = ''desc''
   \<and> sorted_wrt (\<lambda>a b. js_le (price b) (price a))
        (filtered [item 1 ''Red Phone'', item 2 ''Blue Laptop'', item 149501 ''Red Case'']
           (initial_filters\<lparr>sortF := ''desc''\<rparr>))
   \<and> filtered [item 1 ''Red Phone'', item 2 ''Blue Laptop'', item 149501 ''Red Case'']
        (initial_filters\<lparr>sortF := ''desc''\<rparr>)
      = [item 2 ''Blue Laptop'', item 1 ''Red Phone'', item 149501 ''Red Case'']
   \<and> sortF initial_filters \<noteq> ''asc'' \<and> sortF initial_filters \<noteq> ''desc''
   \<and> filtered [item 2 ''Blue Laptop'', item 1 ''Red Phone''] initial_filters
      = filter (passes initial_filters) [item 2 ''Blue Laptop'', item 1 ''Red Phone'']"
proof -
  have a: "sortF (initial_filters\<lparr>sortF := ''asc''\<rparr>) = ''asc''"
    and d: "sortF (initial_filters\<lparr>sortF := ''desc''\<rparr>) = ''desc''"
    and n: "sortF initial_filters \<noteq> ''asc''" "sortF initial_filters \<noteq> ''desc''"
    by (simp_all add: initial_filters_def)
  have "sorted_wrt (\<lambda>a b. js_le (price a) (price b))
        (filtered [item 2 ''Blue Laptop'', item 1 ''Red Phone'', item 149501 ''Red Case'']
           (initial_filters\<lparr>sortF := ''asc''\<rparr>))"
    using filtered_sort_order [where f = "initial_filters\<lparr>sortF := ''asc''\<rparr>"] a by blast
  moreover have "sorted_wrt (\<lambda>a b. js_le (price b) (price a))
        (filtered [item 1 ''Red Phone'', item 2 ''Blue Laptop'', item 149501 ''Red Case'']
           (initial_filters\<lparr>sortF := ''desc''\<rparr>))"
    using filtered_sort_order [where f = "initial_filters\<lparr>sortF := ''desc''\<rparr>"] d by blast
  moreover have "filtered [item 2 ''Blue Laptop'', item 1 ''Red Phone''] initial_filters
      = filter (passes initial_filters) [item 2 ''Blue Laptop'', item 1 ''Red Phone'']"
    using filtered_sort_order [where f = initial_filters] n by blast
  ultimately show ?thesis
    using a d n example_sorts by blast
qed

lemma lower_blue: "toLowerCase ''Blue Laptop'' = ''blue laptop''" "toLowerCase ''blue'' = ''blue''"
  by (simp_all add: toLowerCase_def to_lower_char_def)

text \<open>
  Claim C3, as amended: every item of the output is an item of the input; its lowered
  title contains the lowered search text when a search is set; its category is the
  selected one when a category is set; its price is a number, so it lies between
  \<open>-Infinity\<close> and \<open>+Infinity\<close>, the bounds of an unset or non-numeric field; and it
  respects, inclusively, every bound whose text converts to a number other than zero.
\<close>

theorem filtered_sound:
  assumes "p \<in> set (filtered xs f)"
  shows "p \<in> set xs
    \<and> (search f \<noteq> [] \<longrightarrow> sublist (toLowerCase (search f)) (toLowerCase (title p)))
    \<and> (categoryF f \<noteq> [] \<longrightarrow> category p = Some (categoryF f))
    \<and> js_le NegInfinity (price p) \<and> js_le (price p) PosInfinity
    \<and> (truthy (Number (StrV (minPrice f))) \<longrightarrow> js_le (Number (StrV (minPrice f))) (price p))
    \<and> (truthy (Number (StrV (maxPrice f))) \<longrightarrow> js_le (price p) (Number (StrV (maxPrice f))))"
proof -
  from assms have "p \<in> set xs" and ps: "passes f p"
    by (simp_all add: set_filtered)
  have "price p \<noteq> NaN"
    using ps by (rule passes_price_not_NaN)
  then have "js_le NegInfinity (price p)" "js_le (price p) PosInfinity"
    by (cases "price p"; simp)+
  moreover have "js_le (Number (StrV (minPrice f))) (price p)"
    if "truthy (Number (StrV (minPrice f)))"
    using ps that by (simp add: passes_def in_price_range_def js_ge_def minP_def js_or_def)
  moreover have "js_le (price p) (Number (StrV (maxPrice f)))"
    if "truthy (Number (StrV (maxPrice f)))"
    using ps that by (simp add: passes_def in_price_range_def maxP_def js_or_def)
  moreover have "search f \<noteq> [] \<longrightarrow> sublist (toLowerCase (search f)) (toLowerCase (title p))"
    using ps by (auto simp: passes_def matches_search_def includes_str_sublist)
  moreover have "categoryF f \<noteq> [] \<longrightarrow> category p = Some (categoryF f)"
    using ps by (auto simp: passes_def matches_category_def)
  ultimately show ?thesis
    using \<open>p \<in> set xs\<close> by blast
qed

text \<open>
  The amended claim C3 at the search \<open>blue\<close>, the category \<open>Accessories\<close> and the
  bounds 600 and 700.
\<close>

theorem filtered_sound_witness:
  "item 2 ''Blue Laptop''
     \<in> set (filtered [item 1 ''Red Phone'', item 2 ''Blue Laptop'']
          \<lparr>search = ''blue'', categoryF = ''Accessories'', minPrice = ''600'', maxPrice = ''700'',
           sortF = []\<rparr>)
   \<and> item 2 ''Blue Laptop'' \<in> set [item 1 ''Red Phone'', item 2 ''Blue Laptop'']
   \<and> sublist ''blue'' (toLowerCase (title (item 2 ''Blue Laptop'')))
   \<and> category (item 2 ''Blue Laptop'') = Some ''Accessories''
   \<and> truthy (Number (StrV ''600'')) \<and> truthy (Number (StrV ''700''))
   \<and> js_le (Finite 600) (price (item 2 ''Blue Laptop''))
   \<and> js_le (price (item 2 ''Blue Laptop'')) (Finite 700)"
proof -
  let ?f = "\<lparr>search = ''blue'', categoryF = ''Accessories'', minPrice = ''600'',
             maxPrice = ''700'', sortF = []\<rparr>"
  have m: "item 2 ''Blue Laptop'' \<in> set (filtered [item 1 ''Red Phone'', item 2 ''Blue Laptop''] ?f)"
    unfolding example_items
    by (simp add: filtered_def matches_search_def matches_category_def in_price_range_def
        minP_def maxP_def js_or_def truthy_def js_ge_def Number_text lower_blue)
  note w = filtered_sound [OF m]
  have t: "truthy (Number (StrV ''600''))" "truthy (Number (StrV ''700''))"
    by (simp_all add: Number_text truthy_def)
  from w have "sublist (toLowerCase ''blue'') (toLowerCase (title (item 2 ''Blue Laptop'')))"
    by simp
  then have a: "sublist ''blue'' (toLowerCase (title (item 2 ''Blue Laptop'')))"
    by (simp only: lower_blue)
  from w have b: "category (item 2 ''Blue Laptop'') = Some ''Accessories''"
    "item 2 ''Blue Laptop'' \<in> set [item 1 ''Red Phone'', item 2 ''Blue Laptop'']"
    by simp_all
  from w t have c: "js_le (Finite 600) (price (item 2 ''Blue Laptop''))"
    "js_le (price (item 2 ''Blue Laptop'')) (Finite 700)"
    by (simp_all add: Number_text)
  from m a b c t show ?thesis by blast
qed

text \<open>
  Claim C3 as stated fails for the upper bound \<open>"0"\<close>: the bound is set and numeric,
  yet an item of price 597 is in the output.
\<close>

theorem filtered_zero_bound_counterexample:
  "item 1 ''Red Phone''
     \<in> set (filtered [item 1 ''Red Phone''] (initial_filters\<lparr>maxPrice := ''0''\<rparr>))
   \<and> Number (StrV (maxPrice (initial_filters\<lparr>maxPrice := ''0''\<rparr>))) = Finite 0
   \<and> price (item 1 ''Red Phone'') = Finite 597
   \<and> \<not> js_le (price (item 1 ''Red Phone'')) (Finite 0)"
  unfolding example_items
  by (simp add: filtered_def initial_filters_def in_price_range_def
      minP_def maxP_def js_or_def truthy_def js_ge_def Number_text)

lemma filtered_cong_spec:
  assumes "search f = search g" "categoryF f = categoryF g" "minP f = minP g" "maxP f = maxP g"
    "sortF f = sortF g"
  shows "filtered xs f = filtered xs g"
proof -
  have "matches_search f = matches_search g" "matches_category f = matches_category g"
    "in_price_range f = in_price_range g"
    using assms by (auto simp: matches_search_def matches_category_def in_price_range_def)
  with assms show ?thesis by (simp add: filtered_def)
qed

lemma js_le_PosInfinity: "js_le a PosInfinity \<longleftrightarrow> a \<noteq> NaN"
  by (cases a) simp_all

lemma js_le_NegInfinity: "js_le NegInfinity a \<longleftrightarrow> a \<noteq> NaN"
  by (cases a) simp_all

lemma set_filtered_no_upper:
  assumes "maxP f = PosInfinity"
  shows "set (filtered xs f)
    = {p \<in> set xs. (search f = [] \<or> matches_search f p)
         \<and> (categoryF f = [] \<or> matches_category f p) \<and> js_ge (price p) (minP f)}"
  using js_le_not_NaN
  by (auto simp: set_filtered passes_def in_price_range_def assms js_le_PosInfinity js_ge_def)

lemma set_filtered_no_lower:
  assumes "minP f = NegInfinity"
  shows "set (filtered xs f)
    = {p \<in> set xs. (search f = [] \<or> matches_search f p)
         \<and> (categoryF f = [] \<or> matches_category f p) \<and> js_le (price p) (maxP f)}"
  using js_le_not_NaN
  by (auto simp: set_filtered passes_def in_price_range_def assms js_le_NegInfinity js_ge_def)

text \<open>
  Claim C10: a price bound whose text converts to the number 0 is treated as absent. The
  lower bound is then \<open>-Infinity\<close>, the upper bound \<open>+Infinity\<close>, and the pipeline gives
  what it gives with that field empty: its output holds exactly the items of the input
  that pass the other criteria. In particular no item whose price is a number fails the
  upper-bound test, and with both bounds zero and nothing else set the output is the
  input without the items whose price is \<open>NaN\<close>.
\<close>

theorem zero_bound_is_absent:
  "Number (StrV ''0'') = Finite 0
   \<and> (Number (StrV (minPrice f)) = Finite 0 \<longrightarrow>
        minP f = NegInfinity \<and> filtered xs f = filtered xs (f\<lparr>minPrice := []\<rparr>)
        \<and> set (filtered xs f)
            = {p \<in> set xs. (search f = [] \<or> matches_search f p)
                 \<and> (categoryF f = [] \<or> matches_category f p) \<and> js_le (price p) (maxP f)})
   \<and> (Number (StrV (maxPrice f)) = Finite 0 \<longrightarrow>
        maxP f = PosInfinity \<and> filtered xs f = filtered xs (f\<lparr>maxPrice := []\<rparr>)
        \<and> set (filtered xs f)
            = {p \<in> set xs. (search f = [] \<or> matches_search f p)
                 \<and> (categoryF f = [] \<or> matches_category f p) \<and> js_ge (price p) (minP f)})
   \<and> (Number (StrV (maxPrice f)) = Finite 0 \<and> price p \<noteq> NaN \<longrightarrow> js_le (price p) (maxP f))
   \<and> (Number (StrV (maxPrice f)) = Finite 0 \<and> Number (StrV (minPrice f)) = Finite 0
        \<and> search f = [] \<and> categoryF f = [] \<and> sortF f = [] \<longrightarrow>
        filtered xs f = filter (\<lambda>p. price p \<noteq> NaN) xs)"
proof -
  have lo: "minP f = NegInfinity" if "Number (StrV (minPrice f)) = Finite 0"
    using that by (simp add: minP_def js_or_def truthy_def)
  have hi: "maxP f = PosInfinity" if "Number (StrV (maxPrice f)) = Finite 0"
    using that by (simp add: maxP_def js_or_def truthy_def)
  have lo': "minP (f\<lparr>minPrice := []\<rparr>) = NegInfinity" "maxP (f\<lparr>minPrice := []\<rparr>) = maxP f"
    by (simp_all add: minP_def maxP_def js_or_def truthy_def Number_text)
  have hi': "maxP (f\<lparr>maxPrice := []\<rparr>) = PosInfinity" "minP (f\<lparr>maxPrice := []\<rparr>) = minP f"
    by (simp_all add: minP_def maxP_def js_or_def truthy_def Number_text)
  have a: "filtered xs f = filtered xs (f\<lparr>minPrice := []\<rparr>)"
    if "Number (StrV (minPrice f)) = Finite 0"
    by (rule filtered_cong_spec) (simp_all add: lo [OF that] lo')
  have b: "filtered xs f = filtered xs (f\<lparr>maxPrice := []\<rparr>)"
    if "Number (StrV (maxPrice f)) = Finite 0"
    by (rule filtered_cong_spec) (simp_all add: hi [OF that] hi')
  have c: "js_le (price p) PosInfinity" if "price p \<noteq> NaN"
    using that by (simp add: js_le_PosInfinity)
  have e: "filtered xs f = filter (\<lambda>p. price p \<noteq> NaN) xs"
    if "Number (StrV (maxPrice f)) = Finite 0" "Number (StrV (minPrice f)) = Finite 0"
      "search f = []" "categoryF f = []" "sortF f = []"
  proof -
    have "passes f = (\<lambda>p. price p \<noteq> NaN)"
      using that lo hi
      by (auto simp: passes_def in_price_range_def js_ge_def js_le_PosInfinity js_le_NegInfinity)
    then show ?thesis
      using filtered_unsorted [of f xs] that(5) by simp
  qed
  note l = set_filtered_no_lower [of f xs] and u = set_filtered_no_upper [of f xs]
  have hic: "js_le (price p) (maxP f)"
    if "Number (StrV (maxPrice f)) = Finite 0" "price p \<noteq> NaN"
    using hi [OF that(1)] c [OF that(2)] by simp
  from lo hi a b hic e l u Number_text(2) show ?thesis
    by blast
qed

text \<open>
  Claim C10 at the bounds \<open>"0.0"\<close> and \<open>"0"\<close>: both items, of prices 597 and 694, are in the
  output.
\<close>

theorem zero_bound_is_absent_witness:
  "Number (StrV (minPrice (initial_filters\<lparr>minPrice := ''0.0'', maxPrice := ''0''\<rparr>))) = Finite 0
   \<and> minP (initial_filters\<lparr>minPrice := ''0.0'', maxPrice := ''0''\<rparr>) = NegInfinity
   \<and> Number (StrV (maxPrice (initial_filters\<lparr>minPrice := ''0.0'', maxPrice := ''0''\<rparr>))) = Finite 0
   \<and> maxP (initial_filters\<lparr>minPrice := ''0.0'', maxPrice := ''0''\<rparr>) = PosInfinity
   \<and> search (initial_filters\<lparr>minPrice := ''0.0'', maxPrice := ''0''\<rparr>) = []
   \<and> categoryF (initial_filters\<lparr>minPrice := ''0.0'', maxPrice := ''0''\<rparr>) = []
   \<and> sortF (initial_filters\<lparr>minPrice := ''0.0'', maxPrice := ''0''\<rparr>) = []
   \<and> price (item 1 ''Red Phone'') \<noteq> NaN
   \<and> js_le (price (item 1 ''Red Phone''))
        (maxP (initial_filters\<lparr>minPrice := ''0.0'', maxPrice := ''0''\<rparr>))
   \<and> filtered [item 1 ''Red Phone'', item 2 ''Blue Laptop'']
        (initial_filters\<lparr>minPrice := ''0.0'', maxPrice := ''0''\<rparr>)
      = [item 1 ''Red Phone'', item 2 ''Blue Laptop'']
   \<and> set (filtered [item 1 ''Red Phone'', item 2 ''Blue Laptop'']
        (initial_filters\<lparr>minPrice := ''0.0'', maxPrice := ''0''\<rparr>))
      = {item 1 ''Red Phone'', item 2 ''Blue Laptop''}"
proof -
  let ?f = "initial_filters\<lparr>minPrice := ''0.0'', maxPrice := ''0''\<rparr>"
  let ?xs = "[item 1 ''Red Phone'', item 2 ''Blue Laptop'']"
  note w = zero_bound_is_absent [where f = ?f and p = "item 1 ''Red Phone''" and xs = ?xs]
  have n: "Number (StrV (minPrice ?f)) = Finite 0" "Number (StrV (maxPrice ?f)) = Finite 0"
    by (simp_all add: Number_text)
  have s: "search ?f = []" "categoryF ?f = []" "sortF ?f = []"
    by (simp_all add: initial_filters_def)
  have p: "price (item 1 ''Red Phone'') \<noteq> NaN"
    by (simp add: example_items)
  have "filter (\<lambda>p. price p \<noteq> NaN) ?xs = ?xs"
    by (simp add: example_items)
  with w n s have r: "filtered ?xs ?f = ?xs"
    by metis
  then have r': "set (filtered ?xs ?f) = {item 1 ''Red Phone'', item 2 ''Blue Laptop''}"
    by simp
  from w n have m: "minP ?f = NegInfinity" "maxP ?f = PosInfinity"
    by blast+
  from w n p have l: "js_le (price (item 1 ''Red Phone'')) (maxP ?f)"
    by blast
  from n m s p l r r' show ?thesis by blast
qed

subsection \<open>The pipeline on the store\<close>

lemma extends_slice:
  "src < length st \<Longrightarrow> slice_ref st src = (out, s) \<Longrightarrow> extends st s out (st ! src)"
  by (auto simp: extends_def slice_ref_def alloc_def nth_append)

lemma extends_filter:
  "extends st s out v \<Longrightarrow> filter_ref P s out = (out', s') \<Longrightarrow> extends st s' out' (filter P v)"
  by (auto simp: extends_def filter_ref_def alloc_def nth_append)

lemma extends_sort:
  "extends st s out v \<Longrightarrow> extends st (sort_ref cmp s out) out (array_sort cmp v)"
  by (auto simp: extends_def sort_ref_def take_update_cancel)

lemma extends_frame:
  "extends st s out v \<Longrightarrow> a < length st \<Longrightarrow> s ! a = st ! a"
  by (metis extends_def nth_take)

lemma filtered_store_extends:
  assumes "src < length st"
  shows "extends st (snd (filtered_store st src f)) (fst (filtered_store st src f))
           (filtered (st ! src) f)"
proof -
  obtain out0 s0 where e0: "slice_ref st src = (out0, s0)"
    by (cases "slice_ref st src")
  then have x0: "extends st s0 out0 (st ! src)"
    using assms by (simp add: extends_slice)
  define v1 where "v1 = (if search f \<noteq> [] then filter (matches_search f) (st ! src) else st ! src)"
  obtain out1 s1 where e1: "(if search f \<noteq> [] then filter_ref (matches_search f) s0 out0
                        else (out0, s0)) = (out1, s1)"
    by (cases "if search f \<noteq> [] then filter_ref (matches_search f) s0 out0 else (out0, s0)")
  then have x1: "extends st s1 out1 v1"
    using x0 extends_filter [OF x0] by (auto simp: v1_def split: if_splits)
  define v2 where "v2 = (if categoryF f \<noteq> [] then filter (matches_category f) v1 else v1)"
  obtain out2 s2 where e2: "(if categoryF f \<noteq> [] then filter_ref (matches_category f) s1 out1
                        else (out1, s1)) = (out2, s2)"
    by (cases "if categoryF f \<noteq> [] then filter_ref (matches_category f) s1 out1 else (out1, s1)")
  then have x2: "extends st s2 out2 v2"
    using x1 extends_filter [OF x1] by (auto simp: v2_def split: if_splits)
  define v3 where "v3 = filter (in_price_range f) v2"
  obtain out3 s3 where e3: "filter_ref (in_price_range f) s2 out2 = (out3, s3)"
    by (cases "filter_ref (in_price_range f) s2 out2")
  then have x3: "extends st s3 out3 v3"
    using extends_filter [OF x2] by (simp add: v3_def)
  define s4 where "s4 = (if sortF f = ''asc'' then sort_ref by_price_asc s3 out3 else s3)"
  define v4 where "v4 = (if sortF f = ''asc'' then array_sort by_price_asc v3 else v3)"
  have x4: "extends st s4 out3 v4"
    using x3 extends_sort [OF x3] by (simp add: s4_def v4_def)
  define s5 where "s5 = (if sortF f = ''desc'' then sort_ref by_price_desc s4 out3 else s4)"
  define v5 where "v5 = (if sortF f = ''desc'' then array_sort by_price_desc v4 else v4)"
  have x5: "extends st s5 out3 v5"
    using x4 extends_sort [OF x4] by (simp add: s5_def v5_def)
  have r: "filtered_store st src f = (out3, s5)"
    by (simp add: filtered_store_def e0 e1 e2 e3 s4_def s5_def)
  have v: "filtered (st ! src) f = v5"
    by (simp add: filtered_def v1_def v2_def v3_def v4_def v5_def)
  show ?thesis
    using x5 by (simp add: r v)
qed

text \<open>
  Claim C8: run on a store, the pipeline returns a reference to an array allocated
  during the run, which holds the pipeline's result, and leaves the input array, as every
  array of the initial store, with the same items in the same order.
\<close>

theorem filtered_store_frame:
  assumes "src < length st"
  shows "fst (filtered_store st src f) \<noteq> src
    \<and> length st \<le> fst (filtered_store st src f)
    \<and> snd (filtered_store st src f) ! fst (filtered_store st src f) = filtered (st ! src) f
    \<and> snd (filtered_store st src f) ! src = st ! src
    \<and> take (length st) (snd (filtered_store st src f)) = st"
  using filtered_store_extends [OF assms, of f] assms extends_frame [of st _ _ _ src]
  by (auto simp: extends_def)

text \<open>
  Claim C8 on a store with one array and the sort \<open>asc\<close>: the result is in another
  order than the input, which is unchanged.
\<close>

theorem filtered_store_frame_witness:
  "(0::nat) < length [[item 2 ''Blue Laptop'', item 1 ''Red Phone'']]
   \<and> fst (filtered_store [[item 2 ''Blue Laptop'', item 1 ''Red Phone'']] 0
            (initial_filters\<lparr>sortF := ''asc''\<rparr>)) \<noteq> 0
   \<and> snd (filtered_store [[item 2 ''Blue Laptop'', item 1 ''Red Phone'']] 0
            (initial_filters\<lparr>sortF := ''asc''\<rparr>))
        ! fst (filtered_store [[item 2 ''Blue Laptop'', item 1 ''Red Phone'']] 0
            (initial_filters\<lparr>sortF := ''asc''\<rparr>))
      = filtered ([[item 2 ''Blue Laptop'', item 1 ''Red Phone'']] ! 0)
          (initial_filters\<lparr>sortF := ''asc''\<rparr>)
   \<and> snd (filtered_store [[item 2 ''Blue Laptop'', item 1 ''Red Phone'']] 0
            (initial_filters\<lparr>sortF := ''asc''\<rparr>)) ! 0
      = [item 2 ''Blue Laptop'', item 1 ''Red Phone'']
   \<and> filtered [item 2 ''Blue Laptop'', item 1 ''Red Phone'']
          (initial_filters\<lparr>sortF := ''asc''\<rparr>)
      = [item 1 ''Red Phone'', item 2 ''Blue Laptop'']"
proof -
  have l: "(0::nat) < length [[item 2 ''Blue Laptop'', item 1 ''Red Phone'']]"
    by simp
  note w = filtered_store_frame [OF l, of "initial_filters\<lparr>sortF := ''asc''\<rparr>"]
  have v: "filtered [item 2 ''Blue Laptop'', item 1 ''Red Phone'']
          (initial_filters\<lparr>sortF := ''asc''\<rparr>)
      = [item 1 ''Red Phone'', item 2 ''Blue Laptop'']"
    unfolding example_items
    by (simp add: filtered_def initial_filters_def in_price_range_def minP_def maxP_def
      js_or_def truthy_def js_ge_def Number_text array_sort_def by_price_asc_def
      js_sub_def js_neg_def positive_def)
  have z: "[[item 2 ''Blue Laptop'', item 1 ''Red Phone'']] ! 0
             = [item 2 ''Blue Laptop'', item 1 ''Red Phone'']"
    by simp
  from w l v show ?thesis unfolding z by blast
qed

section \<open>Properties of loading\<close>

lemma load_catch:
  assumes "\<not> no_token (token s)"
    and "net = Rejected \<or> net = Resolved ok None
         \<or> (net = Resolved ok (Some data) \<and> (\<forall>arr. unwrap data \<noteq> Some (J_photos arr)))"
  shows "load rnd net s = (on_catch (s\<lparr>loading := True\<rparr>))\<lparr>loading := False\<rparr>"
proof -
  have "(case unwrap data of Some (J_photos arr) \<Rightarrow> g arr | _ \<Rightarrow> c) = c"
    if "\<forall>arr. unwrap data \<noteq> Some (J_photos arr)" for g and c :: app_state
    using that by (cases "unwrap data") (auto split: json.splits)
  with assms show ?thesis
    by (auto simp: load_def Let_def)
qed

lemma load_thrown:
  assumes "\<not> no_token (token s)"
    and "net = Rejected \<or> net = Resolved ok None
         \<or> (net = Resolved ok (Some data) \<and> (\<forall>arr. unwrap data \<noteq> Some (J_photos arr)))"
  shows "token (load rnd net s) = None" and "location (load rnd net s) = ''/login''"
    and "PrivateRoute (load rnd net s) = Redirect ''/login''"
  unfolding load_catch [OF assms]
  by (simp_all add: on_catch_def PrivateRoute_def no_token_def)

lemma unwrap_error_body:
  "unwrap (J_obj [(''error'', J_str ''Invalid token'')]) = Some (J_photos [])"
  by (simp add: unwrap_def or_json_def)

text \<open>
  Claim C1 at a non-success response whose body is the JSON object
  \<open>{"error": "Invalid token"}\<close>: nothing is thrown, the item list is set to the empty
  list, the token stays in storage and the route guard still renders the protected page.
  (When something is thrown, \<open>load_thrown\<close> above: the token is cleared and the guard
  redirects.)
\<close>

theorem load_non_success_keeps_token:
  "load rnd (Resolved False (Some (J_obj [(''error'', J_str ''Invalid token'')])))
     \<lparr>token = Some ''t0k3n'', location = ''/products'', items = [], loading = True, alerts = []\<rparr>
   = \<lparr>token = Some ''t0k3n'', location = ''/products'', items = [], loading = False, alerts = []\<rparr>
   \<and> PrivateRoute
        (load rnd (Resolved False (Some (J_obj [(''error'', J_str ''Invalid token'')])))
           \<lparr>token = Some ''t0k3n'', location = ''/products'', items = [], loading = True,
            alerts = []\<rparr>)
      = Children"
  by (simp add: load_def unwrap_error_body no_token_def PrivateRoute_def)

end
